theory Spec2Isabelle
  imports Main
begin

section \<open>ServeStaleCache: a serve-stale cache over an LRU map\<close>

text \<open>
  The development embeds the class \<open>ServeStaleCache\<close> (constructor, \<open>clear\<close>,
  \<open>get\<close>, \<open>_set\<close>, \<open>_now\<close>) as functions on an explicit cache state.

  \<^item> Times and ttls are JavaScript numbers holding integral milliseconds; they are
    \<open>int\<close> here.
  \<^item> The objects \<open>cacheRecord\<close> live in a heap (\<open>records\<close>), addressed by allocation
    index, because the callbacks of \<open>get\<close> and \<open>_set\<close> mutate a record through the
    reference they captured, whether or not the LRU map still holds it.
  \<^item> Every call \<open>Promise.resolve(create())\<close> allocates one promise (\<open>promises\<close>),
    taken to be a new one at every call, and stored with the one state-changing callback
    the class attaches to it by \<open>then\<close>. The promises derived by \<open>then\<close> are named by
    terms (\<open>SetThen\<close>, \<open>GetThen\<close>) and their states are computed from the promise they
    derive from.
  \<^item> The promise jobs enabled by an operation run to completion before the next
    operation starts: a callback runs in the step that settles its promise.
\<close>

subsection \<open>JavaScript values that matter to the cache\<close>

type_synonym key = string

datatype err =
  Failure string  \<comment> \<open>the reason \<open>create\<close> threw or rejected with\<close>
  | TypeError  \<comment> \<open>a property read on \<open>undefined\<close> or \<open>null\<close>\<close>
  | NotCacheable  \<comment> \<open>the \<open>Error\<close> thrown by the refresh callback of \<open>get\<close>; it rejects a promise that nobody holds\<close>

text \<open>
  What a producer's promise fulfils with: \<open>undefined\<close>, \<open>null\<close>, another primitive
  (given by its truthiness; its properties \<open>ttl\<close> and \<open>value\<close> read as \<open>undefined\<close>), or
  an object with an optional numeric \<open>ttl\<close> and an optional \<open>value\<close>.
\<close>

datatype 'v result = Undefined | Null | Prim bool | Obj "int option" "'v option"

fun nullish :: "'v result \<Rightarrow> bool" where
  "nullish Undefined = True"
| "nullish Null = True"
| "nullish (Prim b) = False"
| "nullish (Obj t v) = False"

fun truthy :: "'v result \<Rightarrow> bool" where
  "truthy Undefined = False"
| "truthy Null = False"
| "truthy (Prim b) = b"
| "truthy (Obj t v) = True"

text \<open>\<open>ttl_of val\<close> is \<open>Some t\<close> when the test \<open>if (val.ttl)\<close> succeeds with \<open>val.ttl = t\<close>.\<close>

fun ttl_of :: "'v result \<Rightarrow> int option" where
  "ttl_of (Obj (Some t) v) = (if t = 0 then None else Some t)"
| "ttl_of (Obj None v) = None"
| "ttl_of Undefined = None"
| "ttl_of Null = None"
| "ttl_of (Prim b) = None"

datatype 'a pstate = Pending | Fulfilled 'a | Rejected err

text \<open>
  \<open>Created p\<close> is the promise of the \<open>p\<close>-th call \<open>Promise.resolve(create())\<close>;
  \<open>SetThen p\<close> is the promise \<open>promise.then((val) => {...; return val;})\<close> that \<open>_set\<close>
  derives from it; \<open>GetThen h\<close> is the promise \<open>cacheRecord.value.then((val) => val.value)\<close>
  that \<open>get\<close> returns.
\<close>

datatype handle = Created nat | SetThen nat

datatype future = GetThen handle

text \<open>
  The callbacks with an effect: \<open>OnSet r now\<close> is the callback of \<open>_set\<close> for record
  \<open>r\<close>, with the \<open>now\<close> it captured; \<open>OnRefresh r\<close> is the callback of the refresh in
  \<open>get\<close> for record \<open>r\<close>.
\<close>

datatype reaction = OnSet nat int | OnRefresh nat

text \<open>The object \<open>cacheRecord\<close>: fields \<open>expires\<close>, \<open>next\<close> and \<open>value\<close> (\<open>None\<close> is \<open>null\<close>).\<close>

record cache_record =
  expires :: int
  nextp :: "handle option"
  valuep :: "handle option"

record options =
  opt_capacity :: "nat option"
  opt_defaultTTL :: "int option"

record 'v cache =
  clock :: int  \<comment> \<open>what \<open>_now()\<close> returns\<close>
  defaultTTL :: int
  capacity :: nat  \<comment> \<open>the option \<open>max\<close> of the LRU map\<close>
  lru :: "(key \<times> nat) list"  \<comment> \<open>the LRU map, most recently used first\<close>
  records :: "cache_record list"
  promises :: "('v result pstate \<times> reaction option) list"
  calls :: nat  \<comment> \<open>how many times a \<open>create\<close> function was called\<close>
  disposed :: "nat list"  \<comment> \<open>the arguments of the calls of \<open>dispose\<close>, in order\<close>

subsection \<open>The LRU map\<close>

text \<open>
  Modelled from the spec: the package \<open>lru-cache\<close> (\<open>LRUMap\<close>) is a dependency and its
  code is not part of the sources. Section 4.1 of the specification gives its contract:
  \<open>get\<close> returns the entry or absent and bumps recency; \<open>set\<close> inserts or overwrites,
  bumping recency; when an insert would exceed the capacity the least recently accessed
  entry is evicted and the disposal callback is invoked with its stored value; \<open>reset\<close>
  removes all entries, invoking disposal for each. The map is a list of keys with the
  values stored for them, the references of the records, most recently used first.
  \<open>lru_get\<close> is \<open>get\<close>: the value found, if any, and the map with the key moved to
  the front.
\<close>

definition lru_get :: "key \<Rightarrow> (key \<times> nat) list \<Rightarrow> nat option \<times> (key \<times> nat) list" where
  "lru_get k l =
     (case map_of l k of
        None \<Rightarrow> (None, l)
      | Some r \<Rightarrow> (Some r, (k, r) # filter (\<lambda>e. fst e \<noteq> k) l))"

text \<open>
  Modelled from the spec: \<open>set\<close> of the package \<open>lru-cache\<close>. The entry becomes the most
  recently used one; the entries beyond the capacity are evicted, least recently used
  first, and \<open>dispose\<close> is called with the value stored for each (the second component
  of the result).
\<close>

definition lru_set :: "key \<Rightarrow> nat \<Rightarrow> nat \<Rightarrow> (key \<times> nat) list \<Rightarrow> (key \<times> nat) list \<times> nat list" where
  "lru_set k r mx l =
     (let l' = (k, r) # filter (\<lambda>e. fst e \<noteq> k) l
      in (take mx l', rev (map snd (drop mx l'))))"

text \<open>
  Modelled from the spec: \<open>reset\<close> of the package \<open>lru-cache\<close>, which empties the map and
  calls \<open>dispose\<close> for every entry.
\<close>

definition lru_reset :: "(key \<times> nat) list \<Rightarrow> (key \<times> nat) list \<times> nat list" where
  "lru_reset l = ([], map snd l)"

subsection \<open>The class\<close>

text \<open>The constructor: \<open>opts.capacity || 5000\<close> and \<open>opts.defaultTTL || 0\<close>.\<close>

definition new_cache :: "options \<Rightarrow> int \<Rightarrow> 'v cache" where
  "new_cache opts t =
     \<lparr>clock = t,
      defaultTTL = (case opt_defaultTTL opts of None \<Rightarrow> 0 | Some d \<Rightarrow> d),
      capacity = (case opt_capacity opts of None \<Rightarrow> 5000 | Some c \<Rightarrow> if c = 0 then 5000 else c),
      lru = [], records = [], promises = [], calls = 0, disposed = []\<rparr>"

definition clear :: "'v cache \<Rightarrow> 'v cache" where
  "clear s = (case lru_reset (lru s) of (l, ev) \<Rightarrow> s\<lparr>lru := l, disposed := disposed s @ ev\<rparr>)"

text \<open>The clock is the environment's: \<open>at t s\<close> is the cache when \<open>_now()\<close> returns \<open>t\<close>.\<close>

definition at :: "int \<Rightarrow> 'v cache \<Rightarrow> 'v cache" where
  "at t s = s\<lparr>clock := t\<rparr>"

definition update_record :: "nat \<Rightarrow> (cache_record \<Rightarrow> cache_record) \<Rightarrow> 'v cache \<Rightarrow> 'v cache" where
  "update_record r f s = s\<lparr>records := (records s)[r := f (records s ! r)]\<rparr>"

text \<open>
  The callbacks. In \<open>_set\<close>: \<open>if (val.ttl) cacheRecord.expires = now + val.ttl; return val\<close>,
  where reading \<open>val.ttl\<close> throws on \<open>undefined\<close> and \<open>null\<close>. In the refresh:
  \<open>if (!cachedValue) throw\<close>, then \<open>cacheRecord.value = cacheRecord.next\<close>,
  \<open>cacheRecord.next = null\<close> and \<open>cacheRecord.expires = this._now() + _ttl\<close>. Neither
  callback runs when the promise rejects.
\<close>

fun run_reaction :: "reaction \<Rightarrow> 'v result pstate \<Rightarrow> 'v cache \<Rightarrow> 'v cache" where
  "run_reaction (OnSet r now) (Fulfilled val) s =
     (if nullish val then s
      else case ttl_of val of
             Some t \<Rightarrow> update_record r (\<lambda>c. c\<lparr>expires := now + t\<rparr>) s
           | None \<Rightarrow> s)"
| "run_reaction (OnRefresh r) (Fulfilled cachedValue) s =
     (if \<not> truthy cachedValue then s
      else update_record r
             (\<lambda>c. c\<lparr>valuep := nextp c, nextp := None,
                    expires := clock s + (case ttl_of cachedValue of Some t \<Rightarrow> t | None \<Rightarrow> defaultTTL s)\<rparr>) s)"
| "run_reaction rx (Rejected e) s = s"
| "run_reaction rx Pending s = s"

text \<open>
  The environment settles the promise of the \<open>p\<close>-th \<open>create\<close> call; a promise settles
  once. The callback attached to it runs in the same step.
\<close>

definition settle :: "nat \<Rightarrow> 'v result pstate \<Rightarrow> 'v cache \<Rightarrow> 'v cache" where
  "settle p out s =
     (if p < length (promises s) then
        (case promises s ! p of
           (Pending, cb) \<Rightarrow>
             (let s' = s\<lparr>promises := (promises s)[p := (out, cb)]\<rparr>
              in case cb of None \<Rightarrow> s' | Some rx \<Rightarrow> run_reaction rx out s')
         | (Fulfilled v, cb) \<Rightarrow> s
         | (Rejected e, cb) \<Rightarrow> s)
      else s)"

text \<open>
  What \<open>create()\<close> does when called: it throws, or it returns something that
  \<open>Promise.resolve\<close> turns into a promise in the given state (\<open>Pending\<close> for a promise
  settled later by \<open>settle\<close>, \<open>Fulfilled\<close> for a plain value).
\<close>

datatype 'v create = Throws err | Returns "'v result pstate"

text \<open>
  \<open>Promise.resolve(create())\<close> for a \<open>create\<close> that returns: a new promise, pending
  until the synchronous part of \<open>get\<close> is over, with no callback yet.
\<close>

definition new_promise :: "'v cache \<Rightarrow> nat \<times> 'v cache" where
  "new_promise s =
     (length (promises s), s\<lparr>promises := promises s @ [(Pending, None)], calls := Suc (calls s)\<rparr>)"

text \<open>\<open>promise.then(callback)\<close> for one of the two callbacks with an effect.\<close>

definition attach :: "nat \<Rightarrow> reaction \<Rightarrow> 'v cache \<Rightarrow> 'v cache" where
  "attach p rx s = s\<lparr>promises := (promises s)[p := (fst (promises s ! p), Some rx)]\<rparr>"

text \<open>\<open>_set(key, promise)\<close>, for the promise with index \<open>p\<close>; returns the new record.\<close>

definition set_internal :: "key \<Rightarrow> nat \<Rightarrow> 'v cache \<Rightarrow> nat \<times> 'v cache" where
  "set_internal k p s =
     (let ttl = defaultTTL s;
          now = clock s;
          r = length (records s);
          cacheRecord = \<lparr>expires = now + ttl, nextp = None, valuep = Some (SetThen p)\<rparr>;
          s1 = attach p (OnSet r now) (s\<lparr>records := records s @ [cacheRecord]\<rparr>)
      in case lru_set k r (capacity s1) (lru s1) of
           (l, ev) \<Rightarrow> (r, s1\<lparr>lru := l, disposed := disposed s1 @ ev\<rparr>))"

text \<open>\<open>return cacheRecord.value.then(...)\<close>: a \<open>TypeError\<close> when \<open>value\<close> is \<open>null\<close>.\<close>

definition return_value :: "nat \<Rightarrow> 'v cache \<Rightarrow> err + future" where
  "return_value r s =
     (case valuep (records s ! r) of
        None \<Rightarrow> Inl TypeError
      | Some h \<Rightarrow> Inr (GetThen h))"

text \<open>
  \<open>get(key, create)\<close>. The result is the exception thrown or the promise returned,
  with the cache after the call and after the jobs of a promise that \<open>create\<close>
  returned already settled.
\<close>

definition get :: "key \<Rightarrow> 'v create \<Rightarrow> 'v cache \<Rightarrow> (err + future) \<times> 'v cache" where
  "get k create s =
     (case lru_get k (lru s) of
        (None, l) \<Rightarrow>
          (case create of
             Throws e \<Rightarrow> (Inl e, s\<lparr>lru := l, calls := Suc (calls s)\<rparr>)
           | Returns out \<Rightarrow>
               (case new_promise (s\<lparr>lru := l\<rparr>) of
                  (p, s1) \<Rightarrow>
                    (case set_internal k p s1 of
                       (r, s2) \<Rightarrow> (return_value r s2, settle p out s2))))
      | (Some r, l) \<Rightarrow>
          (let s0 = s\<lparr>lru := l\<rparr>;
               now = clock s0
           in if expires (records s0 ! r) < now then
                (case create of
                   Throws e \<Rightarrow> (Inl e, s0\<lparr>calls := Suc (calls s0)\<rparr>)
                 | Returns out \<Rightarrow>
                     (case new_promise s0 of
                        (p, s1) \<Rightarrow>
                          (let s2 = attach p (OnRefresh r)
                                      (update_record r (\<lambda>c. c\<lparr>nextp := Some (Created p)\<rparr>) s1)
                           in (return_value r s2, settle p out s2))))
              else (return_value r s0, s0)))"

subsection \<open>The state of a promise\<close>

definition promise_state :: "'v cache \<Rightarrow> nat \<Rightarrow> 'v result pstate" where
  "promise_state s p = (if p < length (promises s) then fst (promises s ! p) else Pending)"

text \<open>
  \<open>SetThen p\<close> follows promise \<open>p\<close>, except that the callback of \<open>_set\<close> throws a
  \<open>TypeError\<close> on \<open>undefined\<close> and \<open>null\<close>.
\<close>

fun handle_state :: "'v cache \<Rightarrow> handle \<Rightarrow> 'v result pstate" where
  "handle_state s (Created p) = promise_state s p"
| "handle_state s (SetThen p) =
     (case promise_state s p of
        Pending \<Rightarrow> Pending
      | Rejected e \<Rightarrow> Rejected e
      | Fulfilled val \<Rightarrow> if nullish val then Rejected TypeError else Fulfilled val)"

text \<open>
  \<open>(val) => val.value\<close>: a \<open>TypeError\<close> on \<open>undefined\<close> and \<open>null\<close>, \<open>undefined\<close> (here
  \<open>None\<close>) when the property is missing.
\<close>

fun inner_value :: "'v result \<Rightarrow> 'v option pstate" where
  "inner_value Undefined = Rejected TypeError"
| "inner_value Null = Rejected TypeError"
| "inner_value (Prim b) = Fulfilled None"
| "inner_value (Obj t v) = Fulfilled v"

fun future_state :: "'v cache \<Rightarrow> future \<Rightarrow> 'v option pstate" where
  "future_state s (GetThen h) =
     (case handle_state s h of
        Pending \<Rightarrow> Pending
      | Rejected e \<Rightarrow> Rejected e
      | Fulfilled val \<Rightarrow> inner_value val)"

subsection \<open>Scenarios\<close>

text \<open>\<open>new Cache()\<close>, as the tests construct it: no options.\<close>

definition defaults :: options where
  "defaults = \<lparr>opt_capacity = None, opt_defaultTTL = None\<rparr>"

text \<open>
  The first step of the test "should serve stale content, and rebuild in background":
  at time 0 the key \<open>id_q\<close> is created with ttl 100 and value \<open>CachedValue\<close>.
\<close>

definition cached_q :: "string cache" where
  "cached_q =
     snd (get ''id_q'' (Returns (Fulfilled (Obj (Some 100) (Some ''CachedValue'')))) (new_cache defaults 0))"

text \<open>At time 101 a lookup finds the entry expired and starts a refresh that stays pending.\<close>

definition refreshing_q :: "string cache" where
  "refreshing_q = snd (get ''id_q'' (Returns Pending) (at 101 cached_q))"

text \<open>A first population whose producer rejects.\<close>

definition failed_k :: "string cache" where
  "failed_k = settle 0 (Rejected (Failure ''boom'')) (snd (get ''k'' (Returns Pending) (new_cache defaults 0)))"

text \<open>The cache of the specification's concrete scenario: capacity 2, default ttl 100.\<close>

definition small :: options where
  "small = \<lparr>opt_capacity = Some 2, opt_defaultTTL = Some 100\<rparr>"

definition cached_a :: "string cache" where
  "cached_a = snd (get ''a'' (Returns (Fulfilled (Obj None (Some ''A'')))) (new_cache small 0))"

text \<open>
  Two lookups at time 101 find the entry of \<open>id_q\<close> expired, one after the other, so
  two refreshes are in flight (promises 1 and 2); then the first one fulfils.
\<close>

definition overlapped_q :: "string cache" where
  "overlapped_q =
     settle 1 (Fulfilled (Obj (Some 100) (Some ''NewValue''))) (snd (get ''id_q'' (Returns Pending) refreshing_q))"

text \<open>
  A run of lookups, each with its key, the time of the call and the state of the promise
  its producer returns.
\<close>

fun lookups :: "(key \<times> int \<times> 'v result pstate) list \<Rightarrow> 'v cache \<Rightarrow> 'v cache" where
  "lookups [] s = s"
| "lookups ((k, t, out) # ops) s = lookups ops (snd (get k (Returns out) (at t s)))"

section \<open>Properties\<close>

lemmas cache_defs = get_def lru_get_def lru_set_def new_promise_def set_internal_def attach_def
  return_value_def settle_def update_record_def at_def new_cache_def defaults_def
  promise_state_def Let_def

lemma cached_q_eq:
  "cached_q = \<lparr>clock = 0, defaultTTL = 0, capacity = 5000, lru = [(''id_q'', 0)],
     records = [\<lparr>expires = 100, nextp = None, valuep = Some (SetThen 0)\<rparr>],
     promises = [(Fulfilled (Obj (Some 100) (Some ''CachedValue'')), Some (OnSet 0 0))],
     calls = 1, disposed = []\<rparr>"
  by (simp add: cached_q_def cache_defs)

lemma refreshing_q_eq:
  "refreshing_q = \<lparr>clock = 101, defaultTTL = 0, capacity = 5000, lru = [(''id_q'', 0)],
     records = [\<lparr>expires = 100, nextp = Some (Created 1), valuep = Some (SetThen 0)\<rparr>],
     promises = [(Fulfilled (Obj (Some 100) (Some ''CachedValue'')), Some (OnSet 0 0)),
                 (Pending, Some (OnRefresh 0))],
     calls = 2, disposed = []\<rparr>"
  by (simp add: refreshing_q_def cached_q_eq cache_defs)

lemma failed_k_eq:
  "failed_k = \<lparr>clock = 0, defaultTTL = 0, capacity = 5000, lru = [(''k'', 0)],
     records = [\<lparr>expires = 0, nextp = None, valuep = Some (SetThen 0)\<rparr>],
     promises = [(Rejected (Failure ''boom''), Some (OnSet 0 0))],
     calls = 1, disposed = []\<rparr>"
  by (simp add: failed_k_def cache_defs)

lemma cached_a_eq:
  "cached_a = \<lparr>clock = 0, defaultTTL = 100, capacity = 2, lru = [(''a'', 0)],
     records = [\<lparr>expires = 100, nextp = None, valuep = Some (SetThen 0)\<rparr>],
     promises = [(Fulfilled (Obj None (Some ''A'')), Some (OnSet 0 0))],
     calls = 1, disposed = []\<rparr>"
  by (simp add: cached_a_def small_def cache_defs)

lemma overlapped_q_eq:
  "overlapped_q = \<lparr>clock = 101, defaultTTL = 0, capacity = 5000, lru = [(''id_q'', 0)],
     records = [\<lparr>expires = 201, nextp = None, valuep = Some (Created 2)\<rparr>],
     promises = [(Fulfilled (Obj (Some 100) (Some ''CachedValue'')), Some (OnSet 0 0)),
                 (Fulfilled (Obj (Some 100) (Some ''NewValue'')), Some (OnRefresh 0)),
                 (Pending, Some (OnRefresh 0))],
     calls = 3, disposed = []\<rparr>"
  by (simp add: overlapped_q_def refreshing_q_eq cache_defs)

subsection \<open>The test of the repository\<close>

text \<open>
  "should serve stale content, and rebuild in background": the lookup at time 0 resolves
  to \<open>CachedValue\<close>, the lookup at time 101 to \<open>CachedValue\<close> again, and the lookup at
  time 102 to \<open>NewValue\<close>, the result of the producer of the second lookup.
\<close>

lemma test_serve_stale:
  "fst (get ''id_q'' (Returns (Fulfilled (Obj (Some 100) (Some ''CachedValue'')))) (new_cache defaults 0))
     = Inr (GetThen (SetThen 0)) \<and>
   future_state cached_q (GetThen (SetThen 0)) = Fulfilled (Some ''CachedValue'') \<and>
   fst (get ''id_q'' (Returns (Fulfilled (Obj (Some 100) (Some ''NewValue'')))) (at 101 cached_q))
     = Inr (GetThen (SetThen 0)) \<and>
   future_state (snd (get ''id_q'' (Returns (Fulfilled (Obj (Some 100) (Some ''NewValue'')))) (at 101 cached_q)))
     (GetThen (SetThen 0)) = Fulfilled (Some ''CachedValue'') \<and>
   fst (get ''id_q'' (Returns (Fulfilled (Obj (Some 100) (Some ''FinalValue''))))
          (at 102 (snd (get ''id_q'' (Returns (Fulfilled (Obj (Some 100) (Some ''NewValue''))))
                         (at 101 cached_q)))))
     = Inr (GetThen (Created 1)) \<and>
   future_state
     (snd (get ''id_q'' (Returns (Fulfilled (Obj (Some 100) (Some ''FinalValue''))))
             (at 102 (snd (get ''id_q'' (Returns (Fulfilled (Obj (Some 100) (Some ''NewValue''))))
                            (at 101 cached_q))))))
     (GetThen (Created 1)) = Fulfilled (Some ''NewValue'')"
  by (simp add: cached_q_eq cache_defs)

subsection \<open>What settling a promise leaves alone\<close>

lemma run_reaction_frame:
  "calls (run_reaction rx out s) = calls s \<and> lru (run_reaction rx out s) = lru s \<and>
   disposed (run_reaction rx out s) = disposed s \<and> capacity (run_reaction rx out s) = capacity s \<and>
   defaultTTL (run_reaction rx out s) = defaultTTL s \<and> clock (run_reaction rx out s) = clock s \<and>
   promises (run_reaction rx out s) = promises s \<and>
   length (records (run_reaction rx out s)) = length (records s)"
  by (cases "(rx, out, s)" rule: run_reaction.cases)
     (simp_all add: update_record_def split: option.splits)

lemma settle_frame:
  "calls (settle p out s) = calls s \<and> lru (settle p out s) = lru s \<and>
   disposed (settle p out s) = disposed s \<and> capacity (settle p out s) = capacity s \<and>
   defaultTTL (settle p out s) = defaultTTL s \<and> clock (settle p out s) = clock s \<and>
   length (promises (settle p out s)) = length (promises s) \<and>
   length (records (settle p out s)) = length (records s)"
  by (simp add: settle_def run_reaction_frame Let_def split: prod.splits pstate.splits option.splits)

subsection \<open>What one call of \<open>get\<close> does\<close>

lemma get_miss:
  assumes "map_of (lru s) k = None"
  shows "get k (Returns out) s =
     (Inr (GetThen (SetThen (length (promises s)))),
      settle (length (promises s)) out
        (s\<lparr>calls := Suc (calls s),
           records := records s @ [\<lparr>expires = clock s + defaultTTL s, nextp = None,
                                       valuep = Some (SetThen (length (promises s)))\<rparr>],
           promises := promises s @ [(Pending, Some (OnSet (length (records s)) (clock s)))],
           lru := fst (lru_set k (length (records s)) (capacity s) (lru s)),
           disposed := disposed s @ snd (lru_set k (length (records s)) (capacity s) (lru s))\<rparr>))"
  using assms
  by (simp add: get_def lru_get_def new_promise_def set_internal_def attach_def return_value_def
      Let_def split: prod.splits)

lemma get_stale:
  assumes "map_of (lru s) k = Some r" "expires (records s ! r) < clock s"
  shows "get k (Returns out) s =
    (return_value r s,
     settle (length (promises s)) out
       (s\<lparr>lru := (k, r) # filter (\<lambda>e. fst e \<noteq> k) (lru s),
          calls := Suc (calls s),
          records := (records s)[r := (records s ! r)\<lparr>nextp := Some (Created (length (promises s)))\<rparr>],
          promises := promises s @ [(Pending, Some (OnRefresh r))]\<rparr>))"
proof (cases "r < length (records s)")
  case True
  with assms show ?thesis
    by (simp add: get_def lru_get_def new_promise_def attach_def update_record_def
        Let_def return_value_def)
next
  case False
  with assms show ?thesis
    by (simp add: get_def lru_get_def new_promise_def attach_def update_record_def
        Let_def return_value_def list_update_beyond)
qed

lemma get_fresh:
  assumes "map_of (lru s) k = Some r" "\<not> expires (records s ! r) < clock s"
  shows "get k c s = (return_value r s, s\<lparr>lru := (k, r) # filter (\<lambda>e. fst e \<noteq> k) (lru s)\<rparr>)"
  using assms
  by (simp add: get_def lru_get_def return_value_def Let_def)

subsection \<open>Cold miss\<close>

text \<open>
  Claim C8. For a key that the cache does not hold (in particular for any key of a fresh
  cache), \<open>get\<close> calls \<open>create\<close> exactly once and returns a promise that is pending
  while the producer's promise is, and that resolves to the \<open>value\<close> field of the
  producer's result once the producer's promise fulfils, at whatever time; settling the
  promise calls no producer. The same holds when \<open>create\<close> returns the result itself.
\<close>

theorem cold_miss:
  fixes s :: "'v cache" and k :: key and ttl :: "int option" and v :: "'v option" and t :: int
  defines "p \<equiv> length (promises s)"
  defines "f \<equiv> GetThen (SetThen p)"
  defines "s1 \<equiv> snd (get k (Returns Pending) s)"
  defines "s2 \<equiv> settle p (Fulfilled (Obj ttl v)) (at t s1)"
  defines "s3 \<equiv> snd (get k (Returns (Fulfilled (Obj ttl v))) s)"
  assumes "map_of (lru s) k = None"
  shows "fst (get k (Returns Pending) s) = Inr f \<and>
         calls s1 = Suc (calls s) \<and> length (promises s1) = Suc p \<and>
         future_state s1 f = Pending \<and>
         future_state s2 f = Fulfilled v \<and> calls s2 = Suc (calls s) \<and>
         fst (get k (Returns (Fulfilled (Obj ttl v))) s) = Inr f \<and>
         future_state s3 f = Fulfilled v \<and> calls s3 = Suc (calls s)"
  using assms
  by (simp add: get_miss settle_def at_def promise_state_def update_record_def Let_def
      split: option.splits)

theorem cold_miss_witness:
  "map_of (lru (new_cache defaults 0 :: string cache)) ''id_1'' = None \<and>
   fst (get ''id_1'' (Returns (Fulfilled (Obj None (Some ''CachedValue'')))) (new_cache defaults 0))
     = Inr (GetThen (SetThen 0)) \<and>
   future_state
     (snd (get ''id_1'' (Returns (Fulfilled (Obj None (Some ''CachedValue'')))) (new_cache defaults 0)))
     (GetThen (SetThen 0)) = Fulfilled (Some ''CachedValue'') \<and>
   calls (snd (get ''id_1'' (Returns (Fulfilled (Obj None (Some ''CachedValue''))))
                (new_cache defaults 0))) = 1"
  using cold_miss [of "new_cache defaults 0" "''id_1''" None "Some ''CachedValue''"]
  by (simp add: new_cache_def)

lemma settle_keeps_settled:
  assumes "promise_state s p = st" "st \<noteq> Pending"
  shows "promise_state (settle q out s) p = st"
  using assms
  by (auto simp: settle_def promise_state_def run_reaction_frame Let_def nth_list_update
      split: prod.splits pstate.splits option.splits if_splits)

lemma handle_state_append:
  assumes "handle_state s h = Fulfilled val" "promises s' = promises s @ ps"
  shows "handle_state s' h = Fulfilled val"
  using assms
  by (cases h) (auto simp: promise_state_def nth_append split: if_splits pstate.splits)

lemma expired_lookup_calls:
  assumes "map_of (lru s) k = Some r" "expires (records s ! r) < clock s"
  shows "calls (snd (get k c s)) = Suc (calls s)"
proof (cases c)
  case (Throws e)
  with assms show ?thesis by (simp add: get_def lru_get_def Let_def)
next
  case (Returns out)
  with assms show ?thesis by (simp add: get_stale settle_frame)
qed

subsection \<open>When a hit calls the producer\<close>

text \<open>
  Claim C5, as amended. For a key present in the cache, \<open>get\<close> calls \<open>create\<close> if and
  only if \<open>expires < now\<close>, strictly. Otherwise, so also at exactly \<open>now = expires\<close>,
  \<open>create\<close> is not called: \<open>get\<close> returns the promise chained on the cached value
  and changes neither a record nor a promise.
\<close>

theorem refresh_iff_expired:
  assumes "map_of (lru s) k = Some r"
  shows "(expires (records s ! r) < clock s \<longrightarrow> calls (snd (get k c s)) = Suc (calls s)) \<and>
         (\<not> expires (records s ! r) < clock s \<longrightarrow>
            calls (snd (get k c s)) = calls s \<and> fst (get k c s) = return_value r s \<and>
            promises (snd (get k c s)) = promises s \<and> records (snd (get k c s)) = records s)"
proof (cases "expires (records s ! r) < clock s")
  case False
  with assms show ?thesis by (simp add: get_fresh)
next
  case True
  show ?thesis
  proof (cases c)
    case (Throws e)
    with assms True show ?thesis by (simp add: get_def lru_get_def Let_def)
  next
    case (Returns out)
    with assms True show ?thesis by (simp add: get_stale settle_frame)
  qed
qed

theorem refresh_iff_expired_witness:
  "map_of (lru (at 99 cached_q)) ''id_q'' = Some 0 \<and>
   \<not> expires (records (at 99 cached_q) ! 0) < clock (at 99 cached_q) \<and>
   calls (snd (get ''id_q'' (Returns Pending) (at 99 cached_q))) = calls cached_q \<and>
   map_of (lru (at 101 cached_q)) ''id_q'' = Some 0 \<and>
   expires (records (at 101 cached_q) ! 0) < clock (at 101 cached_q) \<and>
   calls (snd (get ''id_q'' (Returns Pending) (at 101 cached_q))) = Suc (calls cached_q)"
  using refresh_iff_expired [of "at 99 cached_q" "''id_q''" 0 "Returns Pending"]
    refresh_iff_expired [of "at 101 cached_q" "''id_q''" 0 "Returns Pending"]
  by (simp add: cached_q_eq at_def)

text \<open>
  The claim as stated fails at \<open>now = expires\<close>: the entry of \<open>id_q\<close> expires at 100,
  and a lookup at time 100 does not call its producer.
\<close>

theorem boundary_not_expired:
  "expires (records (at 100 cached_q) ! 0) = clock (at 100 cached_q) \<and>
   map_of (lru (at 100 cached_q)) ''id_q'' = Some 0 \<and>
   calls (snd (get ''id_q'' (Returns (Fulfilled (Obj (Some 100) (Some ''NewValue'')))) (at 100 cached_q)))
     = calls (at 100 cached_q)"
  by (simp add: cached_q_eq cache_defs)

subsection \<open>No guard against a refresh in flight\<close>

text \<open>
  Claim C6. Every lookup that finds the entry of its key expired (the test of the code:
  \<open>expires < now\<close>) calls its own producer, whatever \<open>next\<close> holds and whatever the
  producer does: when the producer returns a promise, the promises already made stay as
  they are, a new one is made for this call and \<open>next\<close> is overwritten with it. The
  witness is a lookup during a refresh that is still pending.
\<close>

theorem stale_lookup_refreshes:
  fixes s :: "'v cache" and k :: key
  defines "p \<equiv> length (promises s)"
  defines "s1 \<equiv> snd (get k (Returns Pending) s)"
  assumes "map_of (lru s) k = Some r" "r < length (records s)" "expires (records s ! r) < clock s"
  shows "calls (snd (get k c s)) = Suc (calls s) \<and>
         calls s1 = Suc (calls s) \<and>
         promises s1 = promises s @ [(Pending, Some (OnRefresh r))] \<and>
         nextp (records s1 ! r) = Some (Created p)"
  using assms by (simp add: get_stale settle_def expired_lookup_calls)

theorem stale_lookup_refreshes_witness:
  "map_of (lru refreshing_q) ''id_q'' = Some 0 \<and> 0 < length (records refreshing_q) \<and>
   expires (records refreshing_q ! 0) < clock refreshing_q \<and>
   nextp (records refreshing_q ! 0) = Some (Created 1) \<and>
   promise_state refreshing_q 1 = Pending \<and>
   calls (snd (get ''id_q'' (Returns Pending) refreshing_q)) = Suc (calls refreshing_q) \<and>
   promises (snd (get ''id_q'' (Returns Pending) refreshing_q))
     = promises refreshing_q @ [(Pending, Some (OnRefresh 0))] \<and>
   nextp (records (snd (get ''id_q'' (Returns Pending) refreshing_q)) ! 0) = Some (Created 2)"
  using stale_lookup_refreshes [of refreshing_q "''id_q''" 0]
  by (simp add: refreshing_q_eq promise_state_def)

subsection \<open>Stale hit and successful refresh\<close>

text \<open>
  Claim C3, as amended. For a key present in the cache whose entry has expired strictly
  (\<open>expires < now\<close>) and whose value has resolved, \<open>get\<close> returns a promise that is
  resolved to the stale value while the new producer's promise is still pending. When
  that promise then fulfils with a truthy result, no other refresh of the entry having
  been started or settled in between, the entry's \<open>value\<close> becomes the new promise,
  \<open>expires\<close> becomes the time of the settlement plus the result's ttl (the default ttl
  when the ttl is absent or 0), \<open>next\<close> becomes \<open>null\<close>, and a following lookup, at
  whatever time, resolves to the new result's \<open>value\<close>.
\<close>

theorem stale_hit:
  fixes s :: "'v cache" and k :: key and res :: "'v result" and t t2 :: int
    and out :: "'v result pstate"
  defines "p \<equiv> length (promises s)"
  defines "s1 \<equiv> snd (get k (Returns Pending) s)"
  defines "s2 \<equiv> settle p (Fulfilled res) (at t s1)"
  defines "s3 \<equiv> snd (get k (Returns out) (at t2 s2))"
  assumes present: "map_of (lru s) k = Some r" "r < length (records s)"
    and stale: "expires (records s ! r) < clock s"
    and cached: "valuep (records s ! r) = Some h" "handle_state s h = Fulfilled val"
    and usable: "truthy res"
  shows "fst (get k (Returns Pending) s) = Inr (GetThen h) \<and>
         promise_state s1 p = Pending \<and> future_state s1 (GetThen h) = inner_value val \<and>
         expires (records s2 ! r) = t + (case ttl_of res of Some x \<Rightarrow> x | None \<Rightarrow> defaultTTL s) \<and>
         nextp (records s2 ! r) = None \<and> valuep (records s2 ! r) = Some (Created p) \<and>
         handle_state s2 (Created p) = Fulfilled res \<and>
         fst (get k (Returns out) (at t2 s2)) = Inr (GetThen (Created p)) \<and>
         future_state s3 (GetThen (Created p)) = inner_value res"
proof -
  let ?s1 = "s\<lparr>lru := (k, r) # filter (\<lambda>e. fst e \<noteq> k) (lru s),
          calls := Suc (calls s),
          records := (records s)[r := (records s ! r)\<lparr>nextp := Some (Created p)\<rparr>],
          promises := promises s @ [(Pending, Some (OnRefresh r))]\<rparr>"
  have s1: "s1 = ?s1"
    using present stale by (simp add: s1_def get_stale settle_def p_def)
  have a: "fst (get k (Returns Pending) s) = Inr (GetThen h)"
    using present stale cached by (simp add: get_stale return_value_def)
  have b: "promise_state s1 p = Pending"
    by (simp add: s1 promise_state_def p_def)
  have "handle_state s1 h = Fulfilled val"
    using cached(2) by (rule handle_state_append) (simp add: s1)
  then have c: "future_state s1 (GetThen h) = inner_value val" by simp
  have proms2: "promises s2 = promises s @ [(Fulfilled res, Some (OnRefresh r))]"
    and lru2: "lru s2 = (k, r) # filter (\<lambda>e. fst e \<noteq> k) (lru s)"
    using present usable
    by (simp_all add: s2_def s1 settle_def at_def p_def update_record_def)
  have d: "expires (records s2 ! r) = t + (case ttl_of res of Some x \<Rightarrow> x | None \<Rightarrow> defaultTTL s) \<and>
           nextp (records s2 ! r) = None \<and> valuep (records s2 ! r) = Some (Created p)"
    using present usable
    by (simp add: s2_def s1 settle_def at_def p_def update_record_def split: option.splits)
  have e: "handle_state s2 (Created p) = Fulfilled res"
    by (simp add: proms2 promise_state_def p_def)
  have k2: "map_of (lru (at t2 s2)) k = Some r"
    by (simp add: lru2 at_def)
  have v2: "return_value r (at t2 s2) = Inr (GetThen (Created p))"
    using d by (simp add: return_value_def at_def)
  have f: "fst (get k (Returns out) (at t2 s2)) = Inr (GetThen (Created p))"
  proof (cases "expires (records (at t2 s2) ! r) < clock (at t2 s2)")
    case True
    with k2 v2 show ?thesis by (simp add: get_stale)
  next
    case False
    with k2 v2 show ?thesis by (simp add: get_fresh)
  qed
  have g: "promise_state s3 p = Fulfilled res"
  proof (cases "expires (records (at t2 s2) ! r) < clock (at t2 s2)")
    case True
    have "promise_state (settle q out s') p = Fulfilled res"
      if "promise_state s' p = Fulfilled res" for q and s' :: "'v cache"
      using that
      by (auto simp: settle_def promise_state_def run_reaction_frame Let_def nth_list_update
          split: prod.splits pstate.splits option.splits if_splits)
    moreover have "promise_state (at t2 s2\<lparr>lru := (k, r) # filter (\<lambda>e. fst e \<noteq> k) (lru (at t2 s2)),
          calls := Suc (calls (at t2 s2)),
          records := (records (at t2 s2))[r := (records (at t2 s2) ! r)\<lparr>nextp := Some (Created (length (promises (at t2 s2))))\<rparr>],
          promises := promises (at t2 s2) @ [(Pending, Some (OnRefresh r))]\<rparr>) p = Fulfilled res"
      by (simp add: proms2 at_def promise_state_def p_def nth_append)
    ultimately show ?thesis
      using True k2 by (simp add: s3_def get_stale)
  next
    case False
    with k2 show ?thesis
      by (simp add: s3_def get_fresh) (simp add: proms2 at_def promise_state_def p_def)
  qed
  then have h: "future_state s3 (GetThen (Created p)) = inner_value res" by simp
  from a b c d e f h show ?thesis by simp
qed

theorem stale_hit_witness:
  "map_of (lru (at 101 cached_q)) ''id_q'' = Some 0 \<and>
   expires (records (at 101 cached_q) ! 0) < clock (at 101 cached_q) \<and>
   valuep (records (at 101 cached_q) ! 0) = Some (SetThen 0) \<and>
   handle_state (at 101 cached_q) (SetThen 0) = Fulfilled (Obj (Some 100) (Some ''CachedValue'')) \<and>
   fst (get ''id_q'' (Returns Pending) (at 101 cached_q)) = Inr (GetThen (SetThen 0)) \<and>
   future_state refreshing_q (GetThen (SetThen 0)) = Fulfilled (Some ''CachedValue'') \<and>
   expires (records (settle 1 (Fulfilled (Obj (Some 100) (Some ''NewValue''))) (at 101 refreshing_q)) ! 0) = 201 \<and>
   fst (get ''id_q'' (Returns (Fulfilled (Obj (Some 100) (Some ''FinalValue''))))
         (at 102 (settle 1 (Fulfilled (Obj (Some 100) (Some ''NewValue''))) (at 101 refreshing_q))))
     = Inr (GetThen (Created 1)) \<and>
   future_state
     (snd (get ''id_q'' (Returns (Fulfilled (Obj (Some 100) (Some ''FinalValue''))))
            (at 102 (settle 1 (Fulfilled (Obj (Some 100) (Some ''NewValue''))) (at 101 refreshing_q)))))
     (GetThen (Created 1)) = Fulfilled (Some ''NewValue'')"
  using stale_hit [where s = "at 101 cached_q" and k = "''id_q''" and r = 0 and h = "SetThen 0"
      and val = "Obj (Some 100) (Some ''CachedValue'')" and res = "Obj (Some 100) (Some ''NewValue'')"
      and t = 101 and ?t2.0 = 102 and out = "Fulfilled (Obj (Some 100) (Some ''FinalValue''))"]
  by (simp add: refreshing_q_def [symmetric]) (simp add: cached_q_eq at_def promise_state_def)

text \<open>
  The claim as stated fails at \<open>now = expires\<close>: a lookup of \<open>id_q\<close> at time 100
  starts no refresh and leaves the cache as it is, so the following lookup still resolves
  to the old value.
\<close>

theorem no_refresh_at_expiry:
  "clock (at 100 cached_q) = expires (records (at 100 cached_q) ! 0) \<and>
   map_of (lru (at 100 cached_q)) ''id_q'' = Some 0 \<and>
   get ''id_q'' (Returns (Fulfilled (Obj (Some 100) (Some ''NewValue'')))) (at 100 cached_q)
     = (Inr (GetThen (SetThen 0)), at 100 cached_q) \<and>
   fst (get ''id_q'' (Returns (Fulfilled (Obj (Some 100) (Some ''FinalValue'')))) (at 100 cached_q))
     = Inr (GetThen (SetThen 0)) \<and>
   future_state
     (snd (get ''id_q'' (Returns (Fulfilled (Obj (Some 100) (Some ''FinalValue'')))) (at 100 cached_q)))
     (GetThen (SetThen 0)) = Fulfilled (Some ''CachedValue'')"
  by (simp add: cached_q_eq cache_defs)

subsection \<open>The life of \<open>next\<close>\<close>

text \<open>
  Claim C7, as amended. \<open>next\<close> is \<open>null\<close> in a new record. A lookup that finds the
  entry expired (\<open>expires < now\<close>) and whose producer returns a promise sets \<open>next\<close> to
  that promise. When that promise then settles, no other refresh of the entry having
  been started or settled in between: if it fulfils with a truthy result, \<open>next\<close> is set
  to \<open>null\<close> in the step that promotes the promise into \<open>value\<close>; if it rejects, or
  fulfils with a falsy result, \<open>next\<close> is not cleared and keeps the settled promise.
\<close>

theorem pending_refresh_lifecycle:
  fixes s s' :: "'v cache" and k k' :: key and t :: int and res :: "'v result" and e :: err
  defines "p \<equiv> length (promises s')"
  defines "s1 \<equiv> snd (get k' (Returns Pending) s')"
  assumes absent: "map_of (lru s) k = None"
    and present: "map_of (lru s') k' = Some r" "r < length (records s')"
    and stale: "expires (records s' ! r) < clock s'"
  shows "nextp (records (snd (get k (Returns Pending) s)) ! length (records s)) = None \<and>
         nextp (records s1 ! r) = Some (Created p) \<and> promise_state s1 p = Pending \<and>
         (truthy res \<longrightarrow>
            nextp (records (settle p (Fulfilled res) (at t s1)) ! r) = None \<and>
            valuep (records (settle p (Fulfilled res) (at t s1)) ! r) = Some (Created p)) \<and>
         (\<not> truthy res \<longrightarrow>
            nextp (records (settle p (Fulfilled res) (at t s1)) ! r) = Some (Created p) \<and>
            promise_state (settle p (Fulfilled res) (at t s1)) p = Fulfilled res) \<and>
         nextp (records (settle p (Rejected e) (at t s1)) ! r) = Some (Created p) \<and>
         promise_state (settle p (Rejected e) (at t s1)) p = Rejected e"
proof -
  have a: "nextp (records (snd (get k (Returns Pending) s)) ! length (records s)) = None"
    using absent by (simp add: get_miss settle_def)
  have s1: "records s1 = (records s')[r := (records s' ! r)\<lparr>nextp := Some (Created p)\<rparr>]"
    "promises s1 = promises s' @ [(Pending, Some (OnRefresh r))]"
    using present stale by (simp_all add: s1_def get_stale settle_def p_def)
  have b: "nextp (records s1 ! r) = Some (Created p) \<and> promise_state s1 p = Pending"
    using present by (simp add: s1 promise_state_def p_def)
  have c: "nextp (records (settle p (Fulfilled res) (at t s1)) ! r) = None \<and>
           valuep (records (settle p (Fulfilled res) (at t s1)) ! r) = Some (Created p)"
    if "truthy res"
    using that present by (simp add: settle_def at_def s1 p_def update_record_def Let_def)
  have d: "nextp (records (settle p (Fulfilled res) (at t s1)) ! r) = Some (Created p) \<and>
           promise_state (settle p (Fulfilled res) (at t s1)) p = Fulfilled res"
    if "\<not> truthy res"
    using that present by (simp add: settle_def at_def s1 p_def promise_state_def Let_def)
  have e: "nextp (records (settle p (Rejected e) (at t s1)) ! r) = Some (Created p) \<and>
           promise_state (settle p (Rejected e) (at t s1)) p = Rejected e"
    using present by (simp add: settle_def at_def s1 p_def promise_state_def Let_def)
  from a b c d e show ?thesis by simp
qed

theorem pending_refresh_lifecycle_witness:
  "map_of (lru (new_cache defaults 0 :: string cache)) ''id_q'' = None \<and>
   map_of (lru (at 101 cached_q)) ''id_q'' = Some 0 \<and>
   expires (records (at 101 cached_q) ! 0) < clock (at 101 cached_q) \<and>
   nextp (records cached_q ! 0) = None \<and>
   nextp (records refreshing_q ! 0) = Some (Created 1) \<and>
   truthy (Obj None (Some ''NewValue'')) \<and>
   nextp (records (settle 1 (Fulfilled (Obj None (Some ''NewValue''))) (at 102 refreshing_q)) ! 0) = None \<and>
   valuep (records (settle 1 (Fulfilled (Obj None (Some ''NewValue''))) (at 102 refreshing_q)) ! 0)
     = Some (Created 1) \<and>
   \<not> truthy (Undefined :: string result) \<and>
   nextp (records (settle 1 (Fulfilled Undefined) (at 102 refreshing_q)) ! 0) = Some (Created 1) \<and>
   nextp (records (settle 1 (Rejected (Failure ''boom'')) (at 102 refreshing_q)) ! 0) = Some (Created 1)"
  using pending_refresh_lifecycle [where s = "new_cache defaults 0 :: string cache" and k = "''id_q''"
      and s' = "at 101 cached_q" and k' = "''id_q''" and r = 0 and t = 102
      and res = "Obj None (Some ''NewValue'')" and e = "Failure ''boom''"]
    pending_refresh_lifecycle [where s = "new_cache defaults 0 :: string cache" and k = "''id_q''"
      and s' = "at 101 cached_q" and k' = "''id_q''" and r = 0 and t = 102
      and res = "Undefined" and e = "Failure ''boom''"]
  by (simp add: refreshing_q_def [symmetric]) (simp add: cached_q_eq at_def new_cache_def)

text \<open>
  The claim as stated fails when the refresh fails: after the rejection every promise is
  settled, and \<open>next\<close> still holds the rejected one.
\<close>

theorem next_kept_after_failure:
  "nextp (records (settle 1 (Rejected (Failure ''boom'')) refreshing_q) ! 0) = Some (Created 1) \<and>
   map fst (promises (settle 1 (Rejected (Failure ''boom'')) refreshing_q))
     = [Fulfilled (Obj (Some 100) (Some ''CachedValue'')), Rejected (Failure ''boom'')]"
  by (simp add: refreshing_q_eq cache_defs)

subsection \<open>First population that fails\<close>

text \<open>
  What the code does when the producer of a first population rejects, in a cache of
  capacity at least 1: the returned promise fails with the producer's error, and the
  record stays in the LRU map, holding the rejected promise, with the expiry set at its
  creation. A following lookup of the key whose producer returns is a hit: it returns the
  same promise chain, which fails with the first error, and it calls its producer only if
  the entry has expired, as a background refresh.
\<close>

lemma failed_population_stays:
  fixes s :: "'v cache" and k :: key and e :: err and t t2 :: int and out :: "'v result pstate"
  defines "p \<equiv> length (promises s)"
  defines "r \<equiv> length (records s)"
  defines "f \<equiv> GetThen (SetThen p)"
  defines "s1 \<equiv> snd (get k (Returns Pending) s)"
  defines "s2 \<equiv> settle p (Rejected e) (at t s1)"
  defines "s3 \<equiv> snd (get k (Returns out) (at t2 s2))"
  assumes absent: "map_of (lru s) k = None" and room: "0 < capacity s"
  shows "fst (get k (Returns Pending) s) = Inr f \<and> future_state s2 f = Rejected e \<and>
         map_of (lru s2) k = Some r \<and> valuep (records s2 ! r) = Some (SetThen p) \<and>
         expires (records s2 ! r) = clock s + defaultTTL s \<and>
         fst (get k (Returns out) (at t2 s2)) = Inr f \<and> future_state s3 f = Rejected e \<and>
         calls s3 = (if clock s + defaultTTL s < t2 then Suc (calls s2) else calls s2)"
proof -
  have a: "fst (get k (Returns Pending) s) = Inr f"
    using absent by (simp add: get_miss f_def p_def)
  have s2: "records s2 = records s @ [\<lparr>expires = clock s + defaultTTL s, nextp = None,
                                       valuep = Some (SetThen p)\<rparr>]"
    "promises s2 = promises s @ [(Rejected e, Some (OnSet r (clock s)))]"
    "lru s2 = fst (lru_set k r (capacity s) (lru s))"
    using absent by (simp_all add: s2_def s1_def get_miss settle_def at_def p_def r_def)
  have ps2: "promise_state s2 p = Rejected e"
    by (simp add: s2 promise_state_def p_def)
  then have b: "future_state s2 f = Rejected e" by (simp add: f_def)
  have c: "map_of (lru s2) k = Some r"
    using room by (cases "capacity s") (simp_all add: s2 lru_set_def)
  have d: "valuep (records s2 ! r) = Some (SetThen p) \<and> expires (records s2 ! r) = clock s + defaultTTL s"
    by (simp add: s2 r_def)
  have k2: "map_of (lru (at t2 s2)) k = Some r" using c by (simp add: at_def)
  have v2: "return_value r (at t2 s2) = Inr f" using d by (simp add: return_value_def at_def f_def)
  have x2: "expires (records (at t2 s2) ! r) < clock (at t2 s2) \<longleftrightarrow> clock s + defaultTTL s < t2"
    using d by (simp add: at_def)
  have ps2': "promise_state (at t2 s2) p = Rejected e" by (simp add: s2 at_def promise_state_def p_def)
  have ps3: "promise_state s3 p = Rejected e"
  proof (cases "clock s + defaultTTL s < t2")
    case True
    have "promise_state (at t2 s2\<lparr>lru := (k, r) # filter (\<lambda>e. fst e \<noteq> k) (lru (at t2 s2)),
          calls := Suc (calls (at t2 s2)),
          records := (records (at t2 s2))[r := (records (at t2 s2) ! r)\<lparr>nextp := Some (Created (length (promises (at t2 s2))))\<rparr>],
          promises := promises (at t2 s2) @ [(Pending, Some (OnRefresh r))]\<rparr>) p = Rejected e"
      by (simp add: s2 at_def promise_state_def p_def nth_append)
    then show ?thesis
      using True k2 x2 by (simp add: s3_def get_stale settle_keeps_settled)
  next
    case False
    have "promise_state (at t2 s2\<lparr>lru := (k, r) # filter (\<lambda>e. fst e \<noteq> k) (lru (at t2 s2))\<rparr>) p
            = Rejected e"
      by (simp add: s2 at_def promise_state_def p_def)
    then show ?thesis
      using False k2 x2 by (simp add: s3_def get_fresh)
  qed
  then have g: "future_state s3 f = Rejected e" by (simp add: f_def)
  have h: "fst (get k (Returns out) (at t2 s2)) = Inr f"
    using k2 v2 by (cases "clock s + defaultTTL s < t2") (simp_all add: x2 get_stale get_fresh)
  have i: "calls s3 = (if clock s + defaultTTL s < t2 then Suc (calls s2) else calls s2)"
    using k2 x2
    by (cases "clock s + defaultTTL s < t2")
       (simp_all add: s3_def get_stale get_fresh settle_frame, simp_all add: at_def)
  from a b c d g h i show ?thesis by simp
qed

text \<open>
  The sibling path: when \<open>create\<close> throws on a miss, \<open>_set\<close> is never reached, the
  exception reaches the caller, and the cache holds no entry and no promise for the key,
  so that the next lookup is a cold miss.
\<close>

lemma thrown_create_leaves_no_entry:
  assumes "map_of (lru s) k = None"
  shows "fst (get k (Throws e) s) = Inl e \<and> lru (snd (get k (Throws e) s)) = lru s \<and>
         records (snd (get k (Throws e) s)) = records s \<and>
         promises (snd (get k (Throws e) s)) = promises s \<and>
         map_of (lru (snd (get k (Throws e) s))) k = None"
  using assms by (simp add: get_def lru_get_def)

text \<open>
  Claim C1 fails on the code. After the producer of the first population of \<open>k\<close> has
  rejected, the key is still in the LRU map, with the rejected promise as its value. A
  lookup at the same time is a hit that does not call its producer; a lookup one
  millisecond later, with a producer that succeeds, is a hit as well, and the promise it
  returns fails with the first producer's error.
\<close>

theorem failed_entry_is_kept:
  "map_of (lru failed_k) ''k'' = Some 0 \<and>
   calls (snd (get ''k'' (Returns (Fulfilled (Obj None (Some ''V'')))) failed_k)) = calls failed_k \<and>
   fst (get ''k'' (Returns (Fulfilled (Obj None (Some ''V'')))) (at 1 failed_k)) = Inr (GetThen (SetThen 0)) \<and>
   future_state (snd (get ''k'' (Returns (Fulfilled (Obj None (Some ''V'')))) (at 1 failed_k)))
     (GetThen (SetThen 0)) = Rejected (Failure ''boom'')"
  by (simp add: failed_k_eq cache_defs)

subsection \<open>A ttl of 0\<close>

text \<open>
  Claim C10. A producer result whose \<open>ttl\<close> is exactly 0 is treated as a result without
  ttl. On the first population \<open>expires\<close> stays at the time of the creation plus the default
  ttl, whether the producer's promise settles later or \<open>create\<close> returns the result
  itself; on a successful refresh \<open>expires\<close> becomes the time of the settlement plus the
  default ttl. In any state, settling a promise with ttl 0 leaves the same records as
  settling it with no ttl.
\<close>

theorem zero_ttl_is_absent:
  fixes s s' :: "'v cache" and k k' :: key and v :: "'v option" and t :: int
  defines "p \<equiv> length (promises s)"
  defines "p' \<equiv> length (promises s')"
  defines "zero \<equiv> Fulfilled (Obj (Some 0) v)"
  assumes absent: "map_of (lru s) k = None"
    and present: "map_of (lru s') k' = Some r" "r < length (records s')"
    and stale: "expires (records s' ! r) < clock s'"
  shows "expires (records (settle p zero (at t (snd (get k (Returns Pending) s)))) ! length (records s))
           = clock s + defaultTTL s \<and>
         expires (records (snd (get k (Returns zero) s)) ! length (records s))
           = clock s + defaultTTL s \<and>
         expires (records (settle p' zero (at t (snd (get k' (Returns Pending) s')))) ! r)
           = t + defaultTTL s' \<and>
         expires (records (snd (get k' (Returns zero) s')) ! r) = clock s' + defaultTTL s' \<and>
         records (settle q zero s'') = records (settle q (Fulfilled (Obj None v)) s'')"
proof -
  have a: "records (settle q zero s'') = records (settle q (Fulfilled (Obj None v)) s'')"
  proof (cases "q < length (promises s'')")
    case False
    then show ?thesis by (simp add: settle_def)
  next
    case True
    obtain st cb where pq: "promises s'' ! q = (st, cb)" by (cases "promises s'' ! q")
    show ?thesis
    proof (cases st)
      case Pending
      show ?thesis
      proof (cases cb)
        case None
        with True pq Pending show ?thesis by (simp add: settle_def zero_def)
      next
        case (Some rx)
        with True pq Pending show ?thesis
          by (cases rx) (simp_all add: settle_def zero_def update_record_def)
      qed
    qed (use True pq in \<open>simp_all add: settle_def\<close>)
  qed
  from absent have b: "expires (records (settle p zero (at t (snd (get k (Returns Pending) s)))) ! length (records s))
           = clock s + defaultTTL s"
    by (simp add: get_miss settle_def at_def p_def zero_def)
  from absent have c: "expires (records (snd (get k (Returns zero) s)) ! length (records s))
           = clock s + defaultTTL s"
    by (simp add: get_miss settle_def p_def zero_def)
  from present stale have d: "expires (records (settle p' zero (at t (snd (get k' (Returns Pending) s')))) ! r)
           = t + defaultTTL s'"
    by (simp add: get_stale settle_def at_def p'_def zero_def update_record_def)
  from present stale have e: "expires (records (snd (get k' (Returns zero) s')) ! r) = clock s' + defaultTTL s'"
    by (simp add: get_stale settle_def p'_def zero_def update_record_def)
  from a b c d e show ?thesis by simp
qed

theorem zero_ttl_is_absent_witness:
  "map_of (lru (new_cache small 0 :: string cache)) ''a'' = None \<and>
   map_of (lru (at 101 cached_a)) ''a'' = Some 0 \<and>
   expires (records (at 101 cached_a) ! 0) < clock (at 101 cached_a) \<and>
   expires (records (settle 0 (Fulfilled (Obj (Some 0) (Some ''A'')))
              (at 50 (snd (get ''a'' (Returns Pending) (new_cache small 0))))) ! 0) = 100 \<and>
   expires (records (snd (get ''a'' (Returns (Fulfilled (Obj (Some 0) (Some ''A'')))) (new_cache small 0))) ! 0)
     = 100 \<and>
   expires (records (settle 1 (Fulfilled (Obj (Some 0) (Some ''A'')))
              (at 150 (snd (get ''a'' (Returns Pending) (at 101 cached_a))))) ! 0) = 250 \<and>
   expires (records (snd (get ''a'' (Returns (Fulfilled (Obj (Some 0) (Some ''A'')))) (at 101 cached_a))) ! 0)
     = 201"
  using zero_ttl_is_absent [where s = "new_cache small 0 :: string cache" and k = "''a''"
      and s' = "at 101 cached_a" and k' = "''a''" and r = 0 and v = "Some ''A''" and t = 50
      and q = 0 and s'' = cached_a]
    zero_ttl_is_absent [where s = "new_cache small 0 :: string cache" and k = "''a''"
      and s' = "at 101 cached_a" and k' = "''a''" and r = 0 and v = "Some ''A''" and t = 150
      and q = 0 and s'' = cached_a]
  by (simp add: cached_a_eq at_def new_cache_def small_def)

subsection \<open>Results without a \<open>value\<close>\<close>

text \<open>
  On a first population only \<open>undefined\<close> and \<open>null\<close> make the returned promise fail
  (reading \<open>val.ttl\<close> throws); any other result is passed on.
\<close>

lemma malformed_results_rejected:
  assumes "map_of (lru s) k = None"
  shows "future_state (snd (get k (Returns (Fulfilled res)) s)) (GetThen (SetThen (length (promises s))))
           = (if nullish res then Rejected TypeError else inner_value res)"
  using assms
  by (cases res)
     (simp_all add: get_miss settle_def promise_state_def update_record_def Let_def split: option.splits)

text \<open>
  Claim C2 fails on the code. A producer that resolves to an object without \<open>value\<close> is
  not treated as a failure. On a miss (result \<open>{ttl: 100}\<close>) the caller's promise fulfils
  with \<open>undefined\<close> and the entry is stored with the ttl honoured. On a refresh (result
  \<open>{}\<close>, settled at time 150) the result is promoted: the entry's value and expiry
  change, and the promise a later lookup chains on fulfils with \<open>undefined\<close>.
\<close>

theorem result_without_value_accepted:
  "fst (get ''k'' (Returns (Fulfilled (Obj (Some 100) None))) (new_cache defaults 0 :: string cache))
     = Inr (GetThen (SetThen 0)) \<and>
   future_state (snd (get ''k'' (Returns (Fulfilled (Obj (Some 100) None))) (new_cache defaults 0 :: string cache)))
     (GetThen (SetThen 0)) = Fulfilled None \<and>
   expires (records (snd (get ''k'' (Returns (Fulfilled (Obj (Some 100) None)))
                            (new_cache defaults 0 :: string cache))) ! 0) = 100 \<and>
   valuep (records refreshing_q ! 0) = Some (SetThen 0) \<and>
   expires (records refreshing_q ! 0) = 100 \<and>
   valuep (records (settle 1 (Fulfilled (Obj None None)) (at 150 refreshing_q)) ! 0) = Some (Created 1) \<and>
   expires (records (settle 1 (Fulfilled (Obj None None)) (at 150 refreshing_q)) ! 0) = 150 \<and>
   future_state (settle 1 (Fulfilled (Obj None None)) (at 150 refreshing_q)) (GetThen (Created 1))
     = Fulfilled None"
  by (simp add: refreshing_q_eq cache_defs)

subsection \<open>Refresh that fails\<close>

text \<open>
  When the refresh started by a lookup rejects before anything else happens to the entry,
  the entry keeps its value and its expiry, the promise returned to the caller stays
  resolved to the stale value, and every later lookup calls its producer again.
\<close>

lemma refresh_failure_keeps_entry:
  fixes s :: "'v cache" and k :: key and e :: err and t t2 :: int and c :: "'v create"
  defines "p \<equiv> length (promises s)"
  defines "s1 \<equiv> snd (get k (Returns Pending) s)"
  defines "s2 \<equiv> settle p (Rejected e) (at t s1)"
  assumes present: "map_of (lru s) k = Some r" "r < length (records s)"
    and stale: "expires (records s ! r) < clock s"
    and cached: "valuep (records s ! r) = Some h" "handle_state s h = Fulfilled val"
    and later: "clock s \<le> t2"
  shows "fst (get k (Returns Pending) s) = Inr (GetThen h) \<and>
         future_state s2 (GetThen h) = inner_value val \<and>
         valuep (records s2 ! r) = Some h \<and> expires (records s2 ! r) = expires (records s ! r) \<and>
         calls (snd (get k c (at t2 s2))) = Suc (calls s2)"
proof -
  have a: "fst (get k (Returns Pending) s) = Inr (GetThen h)"
    using present stale cached by (simp add: get_stale return_value_def)
  have s2: "records s2 = (records s)[r := (records s ! r)\<lparr>nextp := Some (Created p)\<rparr>]"
    "promises s2 = promises s @ [(Rejected e, Some (OnRefresh r))]"
    "lru s2 = (k, r) # filter (\<lambda>e. fst e \<noteq> k) (lru s)"
    using present stale
    by (simp_all add: s2_def s1_def get_stale settle_def at_def p_def Let_def)
  have "handle_state s2 h = Fulfilled val"
    using cached(2) by (rule handle_state_append) (simp add: s2)
  then have b: "future_state s2 (GetThen h) = inner_value val" by simp
  have c: "valuep (records s2 ! r) = Some h \<and> expires (records s2 ! r) = expires (records s ! r)"
    using present cached by (simp add: s2)
  have "map_of (lru (at t2 s2)) k = Some r" by (simp add: s2 at_def)
  moreover have "expires (records (at t2 s2) ! r) < clock (at t2 s2)"
    using c stale later by (simp add: at_def)
  ultimately have d: "calls (snd (get k c (at t2 s2))) = Suc (calls s2)"
    using expired_lookup_calls [of "at t2 s2" k r c] by (simp add: at_def)
  from a b c d show ?thesis by simp
qed

text \<open>
  Claim C4 fails on the code when refreshes overlap. In \<open>overlapped_q\<close> the callback of
  the first refresh has run \<open>cacheRecord.value = cacheRecord.next\<close> while \<open>next\<close> held
  the promise of the second refresh, still pending. A lookup at time 102 finds the entry
  fresh, calls no producer and returns a promise chained on that pending refresh; when
  the refresh rejects, the rejection reaches this caller.
\<close>

theorem refresh_failure_reaches_caller:
  "promise_state overlapped_q 2 = Pending \<and>
   get ''id_q'' (Returns Pending) (at 102 overlapped_q) = (Inr (GetThen (Created 2)), at 102 overlapped_q) \<and>
   future_state (at 102 overlapped_q) (GetThen (Created 2)) = Pending \<and>
   future_state (settle 2 (Rejected (Failure ''boom'')) (at 102 overlapped_q)) (GetThen (Created 2))
     = Rejected (Failure ''boom'')"
  by (simp add: overlapped_q_eq cache_defs)

text \<open>
  When the second refresh fulfils instead, its callback promotes \<open>next\<close>, by then
  \<open>null\<close>, and the next lookup throws on \<open>cacheRecord.value.then\<close>.
\<close>

lemma overlapping_refreshes_null_value:
  "valuep (records (settle 2 (Fulfilled (Obj None (Some ''Other''))) overlapped_q) ! 0) = None \<and>
   fst (get ''id_q'' (Returns Pending) (settle 2 (Fulfilled (Obj None (Some ''Other''))) overlapped_q))
     = Inl TypeError"
  by (simp add: overlapped_q_eq cache_defs)

subsection \<open>LRU eviction\<close>

lemma lookups_append: "lookups (ops @ ops') s = lookups ops' (lookups ops s)"
  by (induction ops arbitrary: s) auto

lemma map_of_absent: "k \<notin> fst ` set l \<Longrightarrow> map_of l k = None"
  by (simp add: map_of_eq_None_iff)

lemma filter_absent: "k \<notin> fst ` set l \<Longrightarrow> filter (\<lambda>e. fst e \<noteq> k) l = l"
  by (induction l) auto

lemma drop_to_last: "length xs = Suc n \<Longrightarrow> drop n xs = [last xs]"
  by (induction xs arbitrary: n) (auto simp: drop_Cons split: nat.splits)

lemma take_to_butlast: "length xs = Suc n \<Longrightarrow> take n xs = butlast xs"
  by (simp add: butlast_conv_take)

lemma insert_with_room:
  fixes s :: "'v cache" and k :: key and out :: "'v result pstate" and t :: int
  defines "s1 \<equiv> snd (get k (Returns out) (at t s))"
  assumes "k \<notin> fst ` set (lru s)" "length (lru s) < capacity s"
  shows "lru s1 = (k, length (records s)) # lru s \<and> disposed s1 = disposed s \<and>
         length (records s1) = Suc (length (records s)) \<and> capacity s1 = capacity s"
  using assms
  by (simp add: get_miss map_of_absent filter_absent settle_frame at_def lru_set_def)

lemma insert_when_full:
  fixes s :: "'v cache" and k :: key and out :: "'v result pstate" and t :: int
  defines "s1 \<equiv> snd (get k (Returns out) (at t s))"
  assumes "k \<notin> fst ` set (lru s)" "length (lru s) = capacity s" "0 < capacity s"
  shows "lru s1 = (k, length (records s)) # butlast (lru s) \<and>
         disposed s1 = disposed s @ [snd (last (lru s))] \<and>
         length (records s1) = Suc (length (records s)) \<and> capacity s1 = capacity s"
proof -
  from assms(3,4) have ne: "lru s \<noteq> []" by auto
  have "take (capacity s) ((k, length (records s)) # lru s) = (k, length (records s)) # butlast (lru s)"
    using assms(3,4) by (cases "capacity s") (simp_all add: take_to_butlast)
  moreover have "drop (capacity s) ((k, length (records s)) # lru s) = [last (lru s)]"
    using assms(3,4) ne
    by (cases "capacity s") (simp_all add: drop_to_last)
  ultimately show ?thesis
    using assms(2)
    by (simp add: s1_def get_miss map_of_absent filter_absent settle_frame at_def lru_set_def)
qed

lemma lookups_fill:
  assumes "distinct (map fst ops)" "set (map fst ops) \<inter> fst ` set (lru s) = {}"
    "length (lru s) + length ops \<le> capacity s"
  shows "lru (lookups ops s)
           = rev (zip (map fst ops) [length (records s) ..< length (records s) + length ops]) @ lru s \<and>
         disposed (lookups ops s) = disposed s \<and>
         length (records (lookups ops s)) = length (records s) + length ops \<and>
         capacity (lookups ops s) = capacity s"
  using assms
proof (induction ops arbitrary: s)
  case Nil
  then show ?case by simp
next
  case (Cons op ops)
  obtain k t out where op: "op = (k, t, out)" by (cases op)
  let ?s1 = "snd (get k (Returns out) (at t s))"
  from Cons.prems op have k: "k \<notin> fst ` set (lru s)" and room: "length (lru s) < capacity s"
    by auto
  note s1 = insert_with_room [OF k room, of out t]
  have i: "set (map fst ops) \<inter> fst ` set (lru ?s1) = {}"
    using Cons.prems op s1 by auto
  have l: "length (lru ?s1) + length ops \<le> capacity ?s1"
    using Cons.prems s1 by simp
  have d: "distinct (map fst ops)" using Cons.prems by simp
  note IH = Cons.IH [OF d i l]
  have "[length (records s) ..< length (records s) + length (op # ops)]
          = length (records s) # [Suc (length (records s)) ..< Suc (length (records s)) + length ops]"
    by (subst upt_rec) simp
  with IH s1 op show ?case by simp
qed

text \<open>
  Claim C9. In a new cache of capacity \<open>N\<close>, after \<open>N + 1\<close> lookups of distinct keys,
  each a cold miss whose producer returns, the key looked up first, which is the least
  recently accessed one, is absent from the LRU map; the map holds the other keys, most
  recent first, so no more than \<open>N\<close> entries; and \<open>dispose\<close> has been called exactly once,
  with record 0, the value the map stored for the first key.
\<close>

theorem lru_eviction:
  fixes opts :: options and t0 :: int and ops :: "(key \<times> int \<times> 'v result pstate) list"
  defines "s0 \<equiv> new_cache opts t0"
  defines "s \<equiv> lookups ops s0"
  assumes distinct: "distinct (map fst ops)" and count: "length ops = Suc (capacity s0)"
  shows "map_of (lru (lookups (take 1 ops) s0)) (fst (hd ops)) = Some 0 \<and>
         map_of (lru s) (fst (hd ops)) = None \<and>
         map fst (lru s) = rev (tl (map fst ops)) \<and>
         length (lru s) \<le> capacity s0 \<and>
         disposed s = [0]"
proof -
  have cap: "0 < capacity s0"
    by (simp add: s0_def new_cache_def split: option.splits)
  from count obtain ops1 op where ops: "ops = ops1 @ [op]" and len1: "length ops1 = capacity s0"
    by (cases ops rule: rev_cases) auto
  obtain k t out where op: "op = (k, t, out)" by (cases op)
  from cap len1 obtain op0 ops0 where ops1: "ops1 = op0 # ops0" by (cases ops1) auto
  obtain k0 t0' out0 where op0: "op0 = (k0, t0', out0)" by (cases op0)
  let ?s1 = "lookups ops1 s0"
  have empty: "lru s0 = []" "records s0 = []" "disposed s0 = []"
    by (simp_all add: s0_def new_cache_def)
  have fill: "lru ?s1 = rev (zip (map fst ops1) [0 ..< length ops1]) \<and> disposed ?s1 = [] \<and>
              length (records ?s1) = length ops1 \<and> capacity ?s1 = capacity s0"
    using lookups_fill [of ops1 s0] distinct len1 by (simp add: ops empty)
  have keys1: "map fst (lru ?s1) = rev (map fst ops1)"
    using fill by (simp add: rev_map [symmetric] zip_rev [symmetric])
  have absent: "k \<notin> fst ` set (lru ?s1)"
  proof -
    have "fst ` set (lru ?s1) = set (map fst (lru ?s1))" by simp
    also have "\<dots> = set (map fst ops1)" by (simp only: keys1 set_rev)
    finally show ?thesis using distinct by (auto simp: ops op)
  qed
  have full: "length (lru ?s1) = capacity ?s1" using fill len1 by simp
  have cap1: "0 < capacity ?s1" using fill cap by simp
  have s: "s = snd (get k (Returns out) (at t ?s1))"
    by (simp add: s_def ops op lookups_append)
  note last = insert_when_full [OF absent full cap1, of out t]
  have lru_s: "lru s = (k, length (records ?s1)) # butlast (lru ?s1)"
    and disp: "disposed s = [snd (last (lru ?s1))]"
    using last fill by (simp_all add: s)
  have last1: "last (lru ?s1) = (k0, 0)"
    using fill by (simp add: ops1 op0 upt_rec [of 0])
  have a: "map_of (lru (lookups (take 1 ops) s0)) (fst (hd ops)) = Some 0"
    using insert_with_room [of k0 s0 out0 t0'] cap
    by (simp add: ops ops1 op0 empty)
  have "map fst (lru s) = k # butlast (map fst (lru ?s1))"
    by (simp add: lru_s map_butlast)
  also have "\<dots> = k # rev (tl (map fst ops1))"
    by (simp only: keys1 butlast_rev)
  also have "\<dots> = rev (tl (map fst ops))"
    by (simp add: ops ops1 op)
  finally have keys: "map fst (lru s) = rev (tl (map fst ops))" .
  have "fst (hd ops) \<notin> set (rev (tl (map fst ops)))"
    using distinct by (simp add: ops ops1)
  then have b: "map_of (lru s) (fst (hd ops)) = None"
    by (simp only: keys [symmetric] map_of_eq_None_iff set_map) simp
  have c: "length (lru s) \<le> capacity s0"
    using full fill cap by (simp add: lru_s)
  from a b keys c disp last1 show ?thesis by simp
qed

theorem lru_eviction_witness:
  "distinct (map fst [(''a'', 0, Fulfilled (Obj None (Some ''A''))), (''b'', 1, Fulfilled (Obj None (Some ''B''))),
                      (''c'', 3, Fulfilled (Obj None (Some ''C'')))]) \<and>
   length [(''a'', 0 :: int, Fulfilled (Obj None (Some ''A''))), (''b'', 1, Fulfilled (Obj None (Some ''B''))),
           (''c'', 3, Fulfilled (Obj None (Some ''C'')))]
     = Suc (capacity (new_cache small 0 :: string cache)) \<and>
   map fst (lru (lookups [(''a'', 0, Fulfilled (Obj None (Some ''A''))), (''b'', 1, Fulfilled (Obj None (Some ''B''))),
                          (''c'', 3, Fulfilled (Obj None (Some ''C'')))] (new_cache small 0)))
     = [''c'', ''b''] \<and>
   disposed (lookups [(''a'', 0, Fulfilled (Obj None (Some ''A''))), (''b'', 1, Fulfilled (Obj None (Some ''B''))),
                      (''c'', 3, Fulfilled (Obj None (Some ''C'')))] (new_cache small 0)) = [0]"
  using lru_eviction [where opts = small and ?t0.0 = 0
      and ops = "[(''a'', 0, Fulfilled (Obj None (Some ''A''))), (''b'', 1, Fulfilled (Obj None (Some ''B''))),
                  (''c'', 3, Fulfilled (Obj None (Some ''C'')))]"]
  by (simp add: new_cache_def small_def)

text \<open>
  The concrete scenario of the specification: capacity 2, \<open>a\<close> at time 0, \<open>b\<close> at
  time 1, a lookup of \<open>a\<close> at time 2, \<open>c\<close> at time 3. The entry of \<open>b\<close> (record 1) is
  evicted and disposed of.
\<close>

lemma concrete_scenario:
  "lru (snd (get ''c'' (Returns (Fulfilled (Obj None (Some ''C''))))
          (at 3 (snd (get ''a'' (Returns Pending)
             (at 2 (snd (get ''b'' (Returns (Fulfilled (Obj None (Some ''B'')))) (at 1 cached_a)))))))))
     = [(''c'', 2), (''a'', 0)] \<and>
   disposed (snd (get ''c'' (Returns (Fulfilled (Obj None (Some ''C''))))
          (at 3 (snd (get ''a'' (Returns Pending)
             (at 2 (snd (get ''b'' (Returns (Fulfilled (Obj None (Some ''B'')))) (at 1 cached_a)))))))))
     = [1] \<and>
   calls (snd (get ''c'' (Returns (Fulfilled (Obj None (Some ''C''))))
          (at 3 (snd (get ''a'' (Returns Pending)
             (at 2 (snd (get ''b'' (Returns (Fulfilled (Obj None (Some ''B'')))) (at 1 cached_a)))))))))
     = 3"
  by (simp add: cached_a_eq cache_defs)

end
